theory Spec2Isabelle
  imports Main "HOL-Library.Word"
begin

section \<open>The data model of NonBlockingDelay\<close>

text \<open>
  The C types of \<^verbatim>\<open>NonBlockingDelay.h\<close>: \<^verbatim>\<open>uint32_t\<close> is a 32-bit word, whose
  \<open>+\<close> and \<open>-\<close> wrap modulo \<open>2 ^ 32\<close> and whose \<open>\<le>\<close> is the unsigned comparison.
  A \<^verbatim>\<open>NonBlockingDelay*\<close> is an address into a store of timer objects; the
  functions below are called on pointers to live objects, and the store is total.
\<close>

type_synonym uint32_t = "32 word"

type_synonym addr = nat

record NonBlockingDelay =
  interval_ms :: uint32_t
  previousMillis :: uint32_t

text \<open>
  The state the functions of \<^verbatim>\<open>NonBlockingDelay.c\<close> read and write: the global
  millisecond counter \<^verbatim>\<open>systick_millis\<close> and the timer objects the pointers refer to.
\<close>

record machine =
  systick_millis :: uint32_t
  objs :: "addr \<Rightarrow> NonBlockingDelay"

section \<open>The operations\<close>

text \<open>\<^verbatim>\<open>SysTick_Handler\<close>: \<^verbatim>\<open>systick_millis++\<close>.\<close>

definition SysTick_Handler :: "machine \<Rightarrow> machine" where
  "SysTick_Handler s = s\<lparr>systick_millis := systick_millis s + 1\<rparr>"

text \<open>\<^verbatim>\<open>NonBlockingDelay_setInterval\<close>: \<^verbatim>\<open>delay->interval_ms = interval_ms\<close>.\<close>

definition NonBlockingDelay_setInterval :: "addr \<Rightarrow> uint32_t \<Rightarrow> machine \<Rightarrow> machine" where
  "NonBlockingDelay_setInterval delay ms s =
     s\<lparr>objs := (objs s)(delay := (objs s delay)\<lparr>interval_ms := ms\<rparr>)\<rparr>"

text \<open>
  \<^verbatim>\<open>NonBlockingDelay_reset\<close>: \<^verbatim>\<open>delay->previousMillis = systick_millis\<close>, inside
  \<^verbatim>\<open>CORE_ATOMIC_SECTION\<close>, so the counter is read once and whole.
\<close>

definition NonBlockingDelay_reset :: "addr \<Rightarrow> machine \<Rightarrow> machine" where
  "NonBlockingDelay_reset delay s =
     s\<lparr>objs := (objs s)(delay := (objs s delay)\<lparr>previousMillis := systick_millis s\<rparr>)\<rparr>"

text \<open>\<^verbatim>\<open>NonBlockingDelay_Init\<close>: the call of setInterval, then the call of reset.\<close>

definition NonBlockingDelay_Init :: "addr \<Rightarrow> uint32_t \<Rightarrow> machine \<Rightarrow> machine" where
  "NonBlockingDelay_Init delay ms s =
     NonBlockingDelay_reset delay (NonBlockingDelay_setInterval delay ms s)"

text \<open>
  \<^verbatim>\<open>NonBlockingDelay_check\<close>: the counter is read once into \<^verbatim>\<open>currentMillis\<close>; the
  test is \<^verbatim>\<open>(currentMillis - delay->previousMillis) >= delay->interval_ms\<close> on
  \<^verbatim>\<open>uint32_t\<close>. The result is the returned \<^verbatim>\<open>bool\<close> and the state after the call.
\<close>

definition NonBlockingDelay_check :: "addr \<Rightarrow> machine \<Rightarrow> bool \<times> machine" where
  "NonBlockingDelay_check delay s =
     (let currentMillis = systick_millis s in
      if currentMillis - previousMillis (objs s delay) \<ge> interval_ms (objs s delay)
      then (True, s\<lparr>objs := (objs s)(delay := (objs s delay)\<lparr>previousMillis := currentMillis\<rparr>)\<rparr>)
      else (False, s))"

section \<open>The environment: ticks and traces\<close>

text \<open>\<open>ticks n\<close>: the SysTick interrupt fires \<open>n\<close> times, and nothing else runs.\<close>

primrec ticks :: "nat \<Rightarrow> machine \<Rightarrow> machine" where
  "ticks 0 s = s"
| "ticks (Suc n) s = SysTick_Handler (ticks n s)"

text \<open>
  A run of the program as a list of events: an interrupt, or a call of one of the four
  timer functions on some pointer. The second component of a traced state is a ghost
  history: every value the counter has held since the run began, newest first.
\<close>

datatype event =
    Tick
  | Init addr uint32_t
  | SetInterval addr uint32_t
  | Reset addr
  | Check addr

type_synonym traced = "machine \<times> uint32_t list"

fun step :: "event \<Rightarrow> traced \<Rightarrow> traced" where
  "step Tick (s, h) = (SysTick_Handler s, systick_millis (SysTick_Handler s) # h)"
| "step (Init p ms) (s, h) = (NonBlockingDelay_Init p ms s, h)"
| "step (SetInterval p ms) (s, h) = (NonBlockingDelay_setInterval p ms s, h)"
| "step (Reset p) (s, h) = (NonBlockingDelay_reset p s, h)"
| "step (Check p) (s, h) = (snd (NonBlockingDelay_check p s), h)"

fun run :: "event list \<Rightarrow> traced \<Rightarrow> traced" where
  "run [] st = st"
| "run (e # es) st = run es (step e st)"

text \<open>The run starts when the timer at \<open>p\<close> is initialised, with the counter's value then.\<close>

definition start :: "addr \<Rightarrow> uint32_t \<Rightarrow> machine \<Rightarrow> traced" where
  "start p ms s = (NonBlockingDelay_Init p ms s, [systick_millis s])"

text \<open>
  The invariant of the data model: the mark of the timer at \<open>p\<close> is in the history,
  and so is the counter's present value.
\<close>

definition mark_seen :: "addr \<Rightarrow> traced \<Rightarrow> bool" where
  "mark_seen p st =
     (previousMillis (objs (fst st) p) \<in> set (snd st) \<and> systick_millis (fst st) \<in> set (snd st))"

text \<open>
  The specification's words for configure: the interval is the given one and the mark
  is the counter's value at the call; nothing else changes.
\<close>

definition configure_spec :: "addr \<Rightarrow> uint32_t \<Rightarrow> machine \<Rightarrow> machine" where
  "configure_spec delay ms s =
     s\<lparr>objs := (objs s)(delay := \<lparr>interval_ms = ms, previousMillis = systick_millis s\<rparr>)\<rparr>"

text \<open>
  Concrete states for the examples. \<open>boot\<close> is the program at start-up: the counter
  is initialised to 0 (\<^verbatim>\<open>volatile uint32_t systick_millis = 0\<close>) and the timer
  objects are zero-filled. \<open>near_wrap\<close> is a state six ticks before the counter wraps,
  with the timer at address 0 marked at that instant and an interval of 10.
\<close>

definition boot :: machine where
  "boot = \<lparr>systick_millis = 0, objs = (\<lambda>a. \<lparr>interval_ms = 0, previousMillis = 0\<rparr>)\<rparr>"

definition near_wrap :: machine where
  "near_wrap = \<lparr>systick_millis = 4294967290,
                 objs = (\<lambda>a. \<lparr>interval_ms = 10, previousMillis = 4294967290\<rparr>)\<rparr>"

text \<open>A timer with interval 1000 marked at 0, polled late: the counter is at 1250.\<close>

definition late_poll :: machine where
  "late_poll = \<lparr>systick_millis = 1250,
                 objs = (\<lambda>a. \<lparr>interval_ms = 1000, previousMillis = 0\<rparr>)\<rparr>"

section \<open>Helper facts\<close>

lemma ticks_counter: "systick_millis (ticks n s) = systick_millis s + of_nat n"
  by (induction n) (simp_all add: SysTick_Handler_def)

lemma ticks_objs: "objs (ticks n s) = objs s"
  by (induction n) (simp_all add: SysTick_Handler_def)

lemma ticks_eq: "ticks n s = s\<lparr>systick_millis := systick_millis s + of_nat n\<rparr>"
  by (induction n) (simp_all add: SysTick_Handler_def add.assoc)

lemma set_both_fields:
  "d\<lparr>interval_ms := a, previousMillis := b\<rparr> = \<lparr>interval_ms = a, previousMillis = b\<rparr>"
  by (cases d) simp

lemma unat_of_nat32: "n < 2 ^ 32 \<Longrightarrow> unat (of_nat n :: uint32_t) = n"
  by (simp add: unat_of_nat)

lemma step_mark_seen: "mark_seen p st \<Longrightarrow> mark_seen p (step e st)"
proof (cases st)
  case (Pair s h)
  assume "mark_seen p st"
  with Pair show ?thesis
    by (cases e)
      (auto simp: mark_seen_def SysTick_Handler_def NonBlockingDelay_Init_def
        NonBlockingDelay_setInterval_def NonBlockingDelay_reset_def
        NonBlockingDelay_check_def Let_def)
qed

lemma run_mark_seen: "mark_seen p st \<Longrightarrow> mark_seen p (run es st)"
  by (induction es arbitrary: st) (simp_all add: step_mark_seen)

lemma start_mark_seen: "mark_seen p (start p ms s)"
  by (simp add: mark_seen_def start_def NonBlockingDelay_Init_def
      NonBlockingDelay_setInterval_def NonBlockingDelay_reset_def)

text \<open>
  A call on the timer at \<open>p\<close> changes neither the counter nor any other timer: two
  instances sharing the counter do not affect each other.
\<close>

lemma calls_frame:
  "systick_millis (NonBlockingDelay_Init p ms s) = systick_millis s"
  "systick_millis (NonBlockingDelay_setInterval p ms s) = systick_millis s"
  "systick_millis (NonBlockingDelay_reset p s) = systick_millis s"
  "systick_millis (snd (NonBlockingDelay_check p s)) = systick_millis s"
  "q \<noteq> p \<Longrightarrow> objs (NonBlockingDelay_Init p ms s) q = objs s q"
  "q \<noteq> p \<Longrightarrow> objs (NonBlockingDelay_setInterval p ms s) q = objs s q"
  "q \<noteq> p \<Longrightarrow> objs (NonBlockingDelay_reset p s) q = objs s q"
  "q \<noteq> p \<Longrightarrow> objs (snd (NonBlockingDelay_check p s)) q = objs s q"
  by (simp_all add: NonBlockingDelay_Init_def NonBlockingDelay_setInterval_def
      NonBlockingDelay_reset_def NonBlockingDelay_check_def Let_def)

text \<open>
  NonBlockingDelay_Init with \<open>n\<close> interrupts between its two calls: the mark is the
  counter's value when the reset reads it.
\<close>

lemma Init_interrupted:
  "previousMillis (objs (NonBlockingDelay_reset p
       (ticks n (NonBlockingDelay_setInterval p ms s))) p) = systick_millis s + of_nat n
   \<and> interval_ms (objs (NonBlockingDelay_reset p
       (ticks n (NonBlockingDelay_setInterval p ms s))) p) = ms"
  by (simp add: NonBlockingDelay_reset_def NonBlockingDelay_setInterval_def
      ticks_counter ticks_objs)

section \<open>The check\<close>

text \<open>
  C1. For every timer state and every counter value \<open>now\<close>, NonBlockingDelay_check
  returns true if and only if \<open>(now - previousMillis) mod 2 ^ 32 \<ge> interval_ms\<close>,
  the subtraction being that of the integers; when it returns true the state after it
  is the state before with previousMillis of this timer set to the value read, and
  when it returns false the state is unchanged.
\<close>

theorem check_iff_elapsed:
  "fst (NonBlockingDelay_check p s) =
     (uint (interval_ms (objs s p))
        \<le> (uint (systick_millis s) - uint (previousMillis (objs s p))) mod 2 ^ 32)
   \<and> snd (NonBlockingDelay_check p s) =
     (if fst (NonBlockingDelay_check p s)
      then s\<lparr>objs := (objs s)(p := (objs s p)\<lparr>previousMillis := systick_millis s\<rparr>)\<rparr>
      else s)"
  by (simp add: NonBlockingDelay_check_def Let_def word_le_def uint_word_ariths)

theorem check_iff_elapsed_witness:
  "fst (NonBlockingDelay_check 0 near_wrap) = False
   \<and> snd (NonBlockingDelay_check 0 near_wrap) = near_wrap
   \<and> fst (NonBlockingDelay_check 0 late_poll) = True
   \<and> previousMillis (objs (snd (NonBlockingDelay_check 0 late_poll)) 0) = 1250"
  using check_iff_elapsed [of 0 near_wrap] check_iff_elapsed [of 0 late_poll]
  by (simp add: near_wrap_def late_poll_def)

text \<open>
  C2. Let the mark of a timer be the counter's value at some instant, and let \<open>n\<close>
  interrupts fire after it, \<open>n < 2 ^ 32\<close>. Then the subtraction of the check,
  \<open>(now - last_mark) mod 2 ^ 32\<close>, is \<open>n\<close>, whether or not the counter wrapped on the
  way, and the check compares the interval with \<open>n\<close>.
\<close>

theorem wraparound_elapsed:
  assumes "previousMillis (objs s p) = systick_millis s" and "n < 2 ^ 32"
  shows "(uint (systick_millis (ticks n s)) - uint (previousMillis (objs (ticks n s) p)))
            mod 2 ^ 32 = int n
       \<and> unat (systick_millis (ticks n s) - previousMillis (objs (ticks n s) p)) = n
       \<and> fst (NonBlockingDelay_check p (ticks n s)) = (unat (interval_ms (objs s p)) \<le> n)"
proof -
  let ?now = "systick_millis (ticks n s)" and ?mark = "previousMillis (objs (ticks n s) p)"
  have diff: "?now - ?mark = of_nat n"
    using assms(1) by (simp add: ticks_counter ticks_objs)
  have elapsed: "unat (?now - ?mark) = n"
    using assms(2) by (simp add: diff unat_of_nat32)
  have "(uint ?now - uint ?mark) mod 2 ^ 32 = uint (?now - ?mark)"
    by (simp add: uint_word_ariths)
  also have "\<dots> = int (unat (?now - ?mark))"
    by simp
  finally have int_elapsed: "(uint ?now - uint ?mark) mod 2 ^ 32 = int n"
    by (simp only: elapsed)
  have "fst (NonBlockingDelay_check p (ticks n s))
          = (interval_ms (objs s p) \<le> ?now - ?mark)"
    by (simp add: NonBlockingDelay_check_def Let_def ticks_objs)
  also have "\<dots> = (unat (interval_ms (objs s p)) \<le> unat (?now - ?mark))"
    by (simp add: word_le_nat_alt)
  finally have "fst (NonBlockingDelay_check p (ticks n s)) = (unat (interval_ms (objs s p)) \<le> n)"
    by (simp only: elapsed)
  with int_elapsed elapsed show ?thesis
    by blast
qed

theorem wraparound_elapsed_witness:
  "previousMillis (objs near_wrap 0) = systick_millis near_wrap
   \<and> (10 :: nat) < 2 ^ 32
   \<and> systick_millis (ticks 10 near_wrap) = 4
   \<and> unat (systick_millis (ticks 10 near_wrap) - previousMillis (objs (ticks 10 near_wrap) 0)) = 10
   \<and> fst (NonBlockingDelay_check 0 (ticks 10 near_wrap)) = True
   \<and> fst (NonBlockingDelay_check 0 (ticks 9 near_wrap)) = False"
proof -
  have mark: "previousMillis (objs near_wrap 0) = systick_millis near_wrap"
    by (simp add: near_wrap_def)
  have "systick_millis (ticks 10 near_wrap) = 4"
    by (simp add: ticks_counter near_wrap_def)
  moreover have "interval_ms (objs near_wrap 0) = 10"
    by (simp add: near_wrap_def)
  ultimately show ?thesis
    using mark wraparound_elapsed [OF mark, of 10] wraparound_elapsed [OF mark, of 9]
    by simp
qed

text \<open>
  C3, as amended. After a check that returned true, a second check with the counter
  unchanged returns true exactly when the interval is 0; for every timer with a
  nonzero interval it returns false.
\<close>

theorem recheck_after_true:
  assumes "fst (NonBlockingDelay_check p s)"
  shows "fst (NonBlockingDelay_check p (snd (NonBlockingDelay_check p s)))
           = (interval_ms (objs s p) = 0)"
  using assms by (simp add: NonBlockingDelay_check_def Let_def split: if_splits)

theorem recheck_after_true_witness:
  "fst (NonBlockingDelay_check 0 late_poll)
   \<and> fst (NonBlockingDelay_check 0 (snd (NonBlockingDelay_check 0 late_poll))) = False"
proof -
  have first: "fst (NonBlockingDelay_check 0 late_poll)"
    by (simp add: NonBlockingDelay_check_def late_poll_def)
  have "interval_ms (objs late_poll 0) \<noteq> 0"
    by (simp add: late_poll_def)
  with first recheck_after_true [OF first] show ?thesis
    by simp
qed

text \<open>
  C3, as stated, fails: a timer initialised with interval 0 while the counter is at
  1250 returns true at the check, and returns true again at the check repeated at once.
\<close>

theorem recheck_zero_interval_counterexample:
  "fst (NonBlockingDelay_check 0 (NonBlockingDelay_Init 0 0 late_poll))
   \<and> fst (NonBlockingDelay_check 0
          (snd (NonBlockingDelay_check 0 (NonBlockingDelay_Init 0 0 late_poll))))
   \<and> systick_millis (snd (NonBlockingDelay_check 0 (NonBlockingDelay_Init 0 0 late_poll)))
       = systick_millis (NonBlockingDelay_Init 0 0 late_poll)"
  by (simp add: NonBlockingDelay_check_def NonBlockingDelay_Init_def
      NonBlockingDelay_setInterval_def NonBlockingDelay_reset_def)

text \<open>
  C4. A timer whose interval is 0 reports elapsed at every check, whatever the counter
  and the mark are; the check leaves the interval at 0, so the next one does too.
\<close>

theorem zero_interval_always_elapsed:
  assumes "interval_ms (objs s p) = 0"
  shows "fst (NonBlockingDelay_check p s)
       \<and> interval_ms (objs (snd (NonBlockingDelay_check p s)) p) = 0"
  using assms by (simp add: NonBlockingDelay_check_def Let_def)

theorem zero_interval_always_elapsed_witness:
  "interval_ms (objs (NonBlockingDelay_setInterval 0 0 near_wrap) 0) = 0
   \<and> fst (NonBlockingDelay_check 0 (NonBlockingDelay_setInterval 0 0 near_wrap))"
proof -
  have zero: "interval_ms (objs (NonBlockingDelay_setInterval 0 0 near_wrap) 0) = 0"
    by (simp add: NonBlockingDelay_setInterval_def)
  from zero zero_interval_always_elapsed [OF zero] show ?thesis
    by simp
qed

text \<open>
  C5. Reset followed at once by check, no tick in between, returns true if and only if
  the interval is 0.
\<close>

theorem reset_then_check:
  "fst (NonBlockingDelay_check p (NonBlockingDelay_reset p s)) = (interval_ms (objs s p) = 0)"
  by (simp add: NonBlockingDelay_check_def NonBlockingDelay_reset_def Let_def)

section \<open>Configuration\<close>

text \<open>
  C6. NonBlockingDelay_setInterval stores the new interval and leaves the mark (and the
  counter) as they were. So after a reset, \<open>n\<close> ticks, a setInterval and \<open>m\<close> more
  ticks, the check compares the new interval with \<open>n + m\<close>, the time since the reset,
  not with \<open>m\<close>, the time since the setInterval.
\<close>

theorem setInterval_keeps_mark:
  assumes "n + m < 2 ^ 32"
  shows "interval_ms (objs (NonBlockingDelay_setInterval p ms s) p) = ms
       \<and> previousMillis (objs (NonBlockingDelay_setInterval p ms s) p) = previousMillis (objs s p)
       \<and> systick_millis (NonBlockingDelay_setInterval p ms s) = systick_millis s
       \<and> fst (NonBlockingDelay_check p
               (ticks m (NonBlockingDelay_setInterval p ms (ticks n (NonBlockingDelay_reset p s)))))
           = (unat ms \<le> n + m)"
proof -
  have "(of_nat n + of_nat m :: uint32_t) = of_nat (n + m)"
    by simp
  then have "unat (of_nat n + of_nat m :: uint32_t) = n + m"
    using assms by (simp only: unat_of_nat32)
  then show ?thesis
    by (simp add: NonBlockingDelay_setInterval_def NonBlockingDelay_check_def
        NonBlockingDelay_reset_def Let_def ticks_counter ticks_objs word_le_nat_alt add.assoc)
qed

theorem setInterval_keeps_mark_witness:
  "(600 :: nat) + 500 < 2 ^ 32
   \<and> interval_ms (objs (NonBlockingDelay_setInterval 0 1000 boot) 0) = 1000
   \<and> previousMillis (objs (NonBlockingDelay_setInterval 0 1000 boot) 0)
       = previousMillis (objs boot 0)
   \<and> fst (NonBlockingDelay_check 0
        (ticks 500 (NonBlockingDelay_setInterval 0 1000 (ticks 600 (NonBlockingDelay_reset 0 boot)))))
      = True"
proof -
  have bound: "(600 :: nat) + 500 < 2 ^ 32"
    by simp
  from bound setInterval_keeps_mark [OF bound, of 0 1000 boot] show ?thesis
    by simp
qed

text \<open>
  C7. NonBlockingDelay_Init is setInterval followed by reset, and that composition is
  the configure of the specification: whatever the struct held before, afterwards its
  interval is the given one and its mark is the counter's value at the call.
\<close>

theorem Init_is_setInterval_then_reset:
  "NonBlockingDelay_Init p ms s
     = NonBlockingDelay_reset p (NonBlockingDelay_setInterval p ms s)
   \<and> NonBlockingDelay_Init p ms s = configure_spec p ms s
   \<and> interval_ms (objs (NonBlockingDelay_Init p ms s) p) = ms
   \<and> previousMillis (objs (NonBlockingDelay_Init p ms s) p) = systick_millis s"
  by (simp add: NonBlockingDelay_Init_def NonBlockingDelay_reset_def
      NonBlockingDelay_setInterval_def configure_spec_def set_both_fields)

section \<open>The mark over a run\<close>

text \<open>
  C8. From the initialisation of the timer at \<open>p\<close> on, through any sequence of
  interrupts and of Init, setInterval, reset and check calls on any timers, the mark of
  the timer at \<open>p\<close> is a value the counter has held, the present one or an earlier
  one: it is in the history of the run. The invariant holds at the start and every
  step preserves it.
\<close>

theorem mark_is_past_counter_value:
  "mark_seen p (start p ms s)
   \<and> (\<forall>e st. mark_seen p st \<longrightarrow> mark_seen p (step e st))
   \<and> mark_seen p (run es (start p ms s))
   \<and> previousMillis (objs (fst (run es (start p ms s))) p) \<in> set (snd (run es (start p ms s)))"
proof -
  have reached: "mark_seen p (run es (start p ms s))"
    by (rule run_mark_seen) (rule start_mark_seen)
  then have "previousMillis (objs (fst (run es (start p ms s))) p)
               \<in> set (snd (run es (start p ms s)))"
    by (simp add: mark_seen_def)
  with reached show ?thesis
    by (simp add: start_mark_seen step_mark_seen)
qed

theorem mark_is_past_counter_value_witness:
  "mark_seen 0 (start 0 2 near_wrap)
   \<and> mark_seen 0 (step (Check 0) (step Tick (step Tick (start 0 2 near_wrap))))
   \<and> run [Tick, Tick, Check 0, Tick] (start 0 2 near_wrap)
       = (near_wrap\<lparr>systick_millis := 4294967293,
                     objs := (objs near_wrap)(0 := \<lparr>interval_ms = 2, previousMillis = 4294967292\<rparr>)\<rparr>,
          [4294967293, 4294967292, 4294967291, 4294967290])
   \<and> previousMillis (objs (fst (run [Tick, Tick, Check 0, Tick] (start 0 2 near_wrap))) 0)
       \<in> set (snd (run [Tick, Tick, Check 0, Tick] (start 0 2 near_wrap)))"
proof -
  note inv = mark_is_past_counter_value [of 0 2 near_wrap "[Tick, Tick, Check 0, Tick]"]
  have step3: "mark_seen 0 (step (Check 0) (step Tick (step Tick (start 0 2 near_wrap))))"
    using inv by blast
  have trace: "run [Tick, Tick, Check 0, Tick] (start 0 2 near_wrap)
       = (near_wrap\<lparr>systick_millis := 4294967293,
                     objs := (objs near_wrap)(0 := \<lparr>interval_ms = 2, previousMillis = 4294967292\<rparr>)\<rparr>,
          [4294967293, 4294967292, 4294967291, 4294967290])"
    by (simp add: start_def near_wrap_def SysTick_Handler_def NonBlockingDelay_Init_def
        NonBlockingDelay_setInterval_def NonBlockingDelay_reset_def
        NonBlockingDelay_check_def Let_def)
  from inv step3 trace show ?thesis
    by blast
qed

text \<open>
  C9. A check that returns true at counter value \<open>now\<close> stores \<open>now\<close> as the mark:
  that is the old mark plus the interval plus the overshoot, whatever the overshoot
  was. With \<open>k < 2 ^ 32\<close> further ticks and nothing else, the check returns true
  exactly when \<open>k\<close> has reached the interval; so the next true comes when the counter
  is \<open>now + interval_ms\<close> (modulo \<open>2 ^ 32\<close>), and not before.
\<close>

theorem rearm_discards_overshoot:
  assumes "fst (NonBlockingDelay_check p s)" and "k < 2 ^ 32"
  shows "previousMillis (objs (snd (NonBlockingDelay_check p s)) p) = systick_millis s
       \<and> previousMillis (objs (snd (NonBlockingDelay_check p s)) p)
           = previousMillis (objs s p) + interval_ms (objs s p)
             + (systick_millis s - previousMillis (objs s p) - interval_ms (objs s p))
       \<and> fst (NonBlockingDelay_check p (ticks k (snd (NonBlockingDelay_check p s))))
           = (unat (interval_ms (objs s p)) \<le> k)
       \<and> systick_millis (ticks (unat (interval_ms (objs s p))) (snd (NonBlockingDelay_check p s)))
           = systick_millis s + interval_ms (objs s p)"
proof -
  let ?s' = "snd (NonBlockingDelay_check p s)"
  have after: "?s' = s\<lparr>objs := (objs s)(p := (objs s p)\<lparr>previousMillis := systick_millis s\<rparr>)\<rparr>"
    using assms(1) by (simp add: NonBlockingDelay_check_def Let_def split: if_splits)
  have mark: "previousMillis (objs ?s' p) = systick_millis s"
    by (simp add: after)
  have "fst (NonBlockingDelay_check p (ticks k ?s'))
          = (interval_ms (objs s p) \<le> (of_nat k :: uint32_t))"
    unfolding after
    by (simp add: NonBlockingDelay_check_def Let_def ticks_counter ticks_objs)
  also have "\<dots> = (unat (interval_ms (objs s p)) \<le> k)"
    using assms(2) by (simp add: word_le_nat_alt unat_of_nat32)
  finally have next_true: "fst (NonBlockingDelay_check p (ticks k ?s'))
          = (unat (interval_ms (objs s p)) \<le> k)" .
  have reach: "systick_millis (ticks (unat (interval_ms (objs s p))) ?s')
          = systick_millis s + interval_ms (objs s p)"
    by (simp add: ticks_counter after)
  from mark next_true reach show ?thesis
    by simp
qed

theorem rearm_discards_overshoot_witness:
  "fst (NonBlockingDelay_check 0 late_poll)
   \<and> (750 :: nat) < 2 ^ 32
   \<and> previousMillis (objs (snd (NonBlockingDelay_check 0 late_poll)) 0) = 1250
   \<and> systick_millis (ticks 750 (snd (NonBlockingDelay_check 0 late_poll))) = 2000
   \<and> fst (NonBlockingDelay_check 0 (ticks 750 (snd (NonBlockingDelay_check 0 late_poll)))) = False
   \<and> fst (NonBlockingDelay_check 0 (ticks 999 (snd (NonBlockingDelay_check 0 late_poll)))) = False
   \<and> fst (NonBlockingDelay_check 0 (ticks 1000 (snd (NonBlockingDelay_check 0 late_poll)))) = True
   \<and> systick_millis (ticks 1000 (snd (NonBlockingDelay_check 0 late_poll))) = 2250"
proof -
  have first: "fst (NonBlockingDelay_check 0 late_poll)"
    by (simp add: NonBlockingDelay_check_def late_poll_def)
  have given: "interval_ms (objs late_poll 0) = 1000" "systick_millis late_poll = 1250"
    by (simp_all add: late_poll_def)
  have counter: "systick_millis (snd (NonBlockingDelay_check 0 late_poll)) = 1250"
    by (simp add: calls_frame given)
  from first given counter
    rearm_discards_overshoot [OF first, of 750]
    rearm_discards_overshoot [OF first, of 999]
    rearm_discards_overshoot [OF first, of 1000]
  show ?thesis
    by (simp add: ticks_counter)
qed

section \<open>Determinism\<close>

text \<open>
  C10. Init, setInterval, reset and check are functions, defined on every state, and
  what they return and what they leave in the timer depends only on the timer's two
  fields and the counter: two states that agree on these give the same return value
  and the same timer afterwards, whatever else they hold.
\<close>

theorem calls_depend_on_timer_and_counter:
  assumes "systick_millis s1 = systick_millis s2" and "objs s1 p = objs s2 p"
  shows "objs (NonBlockingDelay_Init p ms s1) p = objs (NonBlockingDelay_Init p ms s2) p
       \<and> objs (NonBlockingDelay_setInterval p ms s1) p = objs (NonBlockingDelay_setInterval p ms s2) p
       \<and> objs (NonBlockingDelay_reset p s1) p = objs (NonBlockingDelay_reset p s2) p
       \<and> fst (NonBlockingDelay_check p s1) = fst (NonBlockingDelay_check p s2)
       \<and> objs (snd (NonBlockingDelay_check p s1)) p = objs (snd (NonBlockingDelay_check p s2)) p"
  using assms
  by (simp add: NonBlockingDelay_Init_def NonBlockingDelay_setInterval_def
      NonBlockingDelay_reset_def NonBlockingDelay_check_def Let_def)

theorem calls_depend_on_timer_and_counter_witness:
  "systick_millis late_poll = systick_millis (NonBlockingDelay_Init 1 7 late_poll)
   \<and> objs late_poll 0 = objs (NonBlockingDelay_Init 1 7 late_poll) 0
   \<and> late_poll \<noteq> NonBlockingDelay_Init 1 7 late_poll
   \<and> fst (NonBlockingDelay_check 0 late_poll)
       = fst (NonBlockingDelay_check 0 (NonBlockingDelay_Init 1 7 late_poll))
   \<and> objs (snd (NonBlockingDelay_check 0 late_poll)) 0
       = objs (snd (NonBlockingDelay_check 0 (NonBlockingDelay_Init 1 7 late_poll))) 0"
proof -
  have counter: "systick_millis late_poll = systick_millis (NonBlockingDelay_Init 1 7 late_poll)"
    by (simp add: calls_frame)
  have timer: "objs late_poll 0 = objs (NonBlockingDelay_Init 1 7 late_poll) 0"
    by (simp add: calls_frame)
  have "interval_ms (objs late_poll 1) \<noteq> interval_ms (objs (NonBlockingDelay_Init 1 7 late_poll) 1)"
    by (simp add: late_poll_def NonBlockingDelay_Init_def NonBlockingDelay_setInterval_def
        NonBlockingDelay_reset_def)
  then have differ: "late_poll \<noteq> NonBlockingDelay_Init 1 7 late_poll"
    by auto
  from counter timer differ calls_depend_on_timer_and_counter [OF counter timer]
  show ?thesis
    by simp
qed

end
